theory Spec2Isabelle
  imports Main "HOL-Library.Multiset" "HOL-Library.Sublist"
begin

section \<open>Python values and the file system\<close>

text \<open>
  A shallow embedding of \<^verbatim>\<open>llm_cartographer/utils.py\<close>.  Python \<^verbatim>\<open>bytes\<close> are lists of
  8-bit characters; a Python \<^verbatim>\<open>str\<close> is a list of code points, so that \<^verbatim>\<open>len\<close> counts
  characters and not bytes.  Exceptions are values of \<open>pyerr\<close>; a function that can raise
  returns \<open>pyerr + 'a\<close> with \<open>Inl\<close> for the exception that leaves it.
\<close>

type_synonym bytes = "char list"
type_synonym str = "nat list"

definition ascii :: "string \<Rightarrow> str" where
  "ascii s = map of_char s"

definition NL :: char where
  "NL = CHR 0x0A"

datatype pyerr =
    FileNotFoundError | PermissionError | OSError
  | UnicodeDecodeError | ValueError | ImportError

text \<open>The subclasses of \<^verbatim>\<open>OSError\<close> among the exceptions above.\<close>

fun is_OSError :: "pyerr \<Rightarrow> bool" where
  "is_OSError FileNotFoundError = True"
| "is_OSError PermissionError = True"
| "is_OSError OSError = True"
| "is_OSError _ = False"

text \<open>
  What a path names: nothing (\<open>Absent\<close>: \<^verbatim>\<open>stat\<close> and \<^verbatim>\<open>open\<close> raise), a file that
  \<^verbatim>\<open>stat\<close> sees and \<^verbatim>\<open>open\<close> refuses (\<open>NoAccess\<close>), a file that opens and whose every
  read fails with a device error (\<open>BadDevice\<close>), or a readable file (\<open>Regular\<close>).
\<close>

datatype node = Absent | NoAccess bytes | BadDevice bytes | Regular bytes

type_synonym filesystem = "string \<Rightarrow> node"

definition single_file :: "string \<Rightarrow> bytes \<Rightarrow> filesystem" where
  "single_file name b = (\<lambda>p. if p = name then Regular b else Absent)"

fun st_size :: "node \<Rightarrow> pyerr + nat" where
  "st_size Absent = Inl FileNotFoundError"
| "st_size (NoAccess b) = Inr (length b)"
| "st_size (BadDevice b) = Inr (length b)"
| "st_size (Regular b) = Inr (length b)"

datatype handle = Handle (contents: bytes) (faulty: bool)

fun open_file :: "node \<Rightarrow> pyerr + handle" where
  "open_file Absent = Inl FileNotFoundError"
| "open_file (NoAccess b) = Inl PermissionError"
| "open_file (BadDevice b) = Inr (Handle b True)"
| "open_file (Regular b) = Inr (Handle b False)"

text \<open>\<^verbatim>\<open>f.seek(pos); f.read(n)\<close> on a binary handle.\<close>

definition pread :: "handle \<Rightarrow> nat \<Rightarrow> nat \<Rightarrow> pyerr + bytes" where
  "pread h pos n = (if faulty h then Inl OSError else Inr (take n (drop pos (contents h))))"

text \<open>\<^verbatim>\<open>str(e)\<close> for the exceptions the file operations raise on \<open>path\<close>.\<close>

fun str_of_error :: "pyerr \<Rightarrow> string \<Rightarrow> string" where
  "str_of_error FileNotFoundError path = ''[Errno 2] No such file or directory: '' @ [CHR 0x27] @ path @ [CHR 0x27]"
| "str_of_error PermissionError path = ''[Errno 13] Permission denied: '' @ [CHR 0x27] @ path @ [CHR 0x27]"
| "str_of_error OSError path = ''[Errno 5] Input/output error''"
| "str_of_error UnicodeDecodeError path = ''invalid utf-8''"
| "str_of_error ValueError path = ''maxlen must be non-negative''"
| "str_of_error ImportError path = ''No module named tqdm''"

section \<open>The UTF-8 codec and text mode\<close>

definition cont_byte :: "nat \<Rightarrow> bool" where
  "cont_byte b \<longleftrightarrow> 128 \<le> b \<and> b < 192"

text \<open>
  The second byte of a three- or four-byte sequence: a continuation byte that does not make
  the sequence an overlong form, a surrogate or a code point above U+10FFFF.
\<close>

definition second_ok :: "nat \<Rightarrow> nat \<Rightarrow> bool" where
  "second_ok b0 b1 \<longleftrightarrow>
     cont_byte b1 \<and> \<not> (b0 = 224 \<and> b1 < 160) \<and> \<not> (b0 = 237 \<and> 160 \<le> b1)
       \<and> \<not> (b0 = 240 \<and> b1 < 144) \<and> \<not> (b0 = 244 \<and> 144 \<le> b1)"

text \<open>
  One pass of the decoder over the byte values: \<open>Some c\<close> for each code point, \<open>None\<close> for
  each decoding error, which covers the longest prefix of a well-formed sequence (at least
  one byte), as CPython reports it.
\<close>

fun utf8_scan :: "nat list \<Rightarrow> nat option list" where
  "utf8_scan [] = []"
| "utf8_scan (b0 # bs) =
     (if b0 < 128 then Some b0 # utf8_scan bs
      else if b0 < 194 \<or> 245 \<le> b0 then None # utf8_scan bs
      else if b0 < 224 then
        (case bs of
           [] \<Rightarrow> [None]
         | b1 # r1 \<Rightarrow>
             if cont_byte b1 then Some ((b0 - 192) * 64 + (b1 - 128)) # utf8_scan r1
             else None # utf8_scan bs)
      else if b0 < 240 then
        (case bs of
           [] \<Rightarrow> [None]
         | b1 # r1 \<Rightarrow>
             if \<not> second_ok b0 b1 then None # utf8_scan bs
             else (case r1 of
                     [] \<Rightarrow> [None]
                   | b2 # r2 \<Rightarrow>
                       if cont_byte b2
                       then Some ((b0 - 224) * 4096 + (b1 - 128) * 64 + (b2 - 128)) # utf8_scan r2
                       else None # utf8_scan r1))
      else
        (case bs of
           [] \<Rightarrow> [None]
         | b1 # r1 \<Rightarrow>
             if \<not> second_ok b0 b1 then None # utf8_scan bs
             else (case r1 of
                     [] \<Rightarrow> [None]
                   | b2 # r2 \<Rightarrow>
                       if \<not> cont_byte b2 then None # utf8_scan r1
                       else (case r2 of
                               [] \<Rightarrow> [None]
                             | b3 # r3 \<Rightarrow>
                                 if cont_byte b3
                                 then Some ((b0 - 240) * 262144 + (b1 - 128) * 4096
                                            + (b2 - 128) * 64 + (b3 - 128)) # utf8_scan r3
                                 else None # utf8_scan r2))))"

text \<open>\<^verbatim>\<open>b.decode('utf-8', errors='ignore')\<close>: the errors are dropped.\<close>

definition decode_ignore :: "bytes \<Rightarrow> str" where
  "decode_ignore b = List.map_filter (\<lambda>x. x) (utf8_scan (map of_char b))"

text \<open>\<^verbatim>\<open>b.decode('utf-8')\<close>: the first error raises.\<close>

definition decode_strict :: "bytes \<Rightarrow> pyerr + str" where
  "decode_strict b =
     (if list_all (\<lambda>x. x \<noteq> None) (utf8_scan (map of_char b))
      then Inr (List.map_filter (\<lambda>x. x) (utf8_scan (map of_char b)))
      else Inl UnicodeDecodeError)"

text \<open>
  Text mode translates \<^verbatim>\<open>\r\n\<close> and a lone \<^verbatim>\<open>\r\<close> to \<^verbatim>\<open>\n\<close> (universal newlines, the
  default of \<^verbatim>\<open>open(path, 'r')\<close>).
\<close>

fun universal_newlines :: "str \<Rightarrow> str" where
  "universal_newlines [] = []"
| "universal_newlines [c] = [if c = 13 then 10 else c]"
| "universal_newlines (c # d # r) =
     (if c = 13 then (if d = 10 then 10 # universal_newlines r
                      else 10 # universal_newlines (d # r))
      else c # universal_newlines (d # r))"

text \<open>
  \<^verbatim>\<open>open(path, 'r', encoding='utf-8', errors='ignore')\<close> followed by reads: the text the
  handle delivers, or the exception of the first read.
\<close>

definition text_ignore :: "handle \<Rightarrow> pyerr + str" where
  "text_ignore h =
     (if faulty h then Inl OSError
      else Inr (universal_newlines (decode_ignore (contents h))))"

definition text_strict :: "handle \<Rightarrow> pyerr + str" where
  "text_strict h =
     (if faulty h then Inl OSError
      else (case decode_strict (contents h) of
              Inl e \<Rightarrow> Inl e
            | Inr s \<Rightarrow> Inr (universal_newlines s)))"

text \<open>\<^verbatim>\<open>f.read(n)\<close> in text mode: at most \<open>n\<close> characters; everything when \<open>n\<close> is negative.\<close>

definition read_chars :: "int \<Rightarrow> str \<Rightarrow> str" where
  "read_chars n s = (if n < 0 then s else take (nat n) s)"

section \<open>\<^verbatim>\<open>safe_read_file\<close>\<close>

definition error_placeholder :: "pyerr \<Rightarrow> string \<Rightarrow> str" where
  "error_placeholder e path = ascii (''[Error reading file: '' @ str_of_error e path @ '']'')"

text \<open>
  The \<^verbatim>\<open>with open(...)\<close> of each branch.  In the first branch neither \<^verbatim>\<open>path.stat()\<close> nor
  the \<^verbatim>\<open>open\<close> stands inside a \<^verbatim>\<open>try\<close>.
\<close>

definition read_text_ignore :: "filesystem \<Rightarrow> string \<Rightarrow> int \<Rightarrow> pyerr + str" where
  "read_text_ignore fs path n =
     (case open_file (fs path) of
        Inl e \<Rightarrow> Inl e
      | Inr f \<Rightarrow> (case text_ignore f of Inl e \<Rightarrow> Inl e | Inr s \<Rightarrow> Inr (read_chars n s)))"

definition read_text_strict :: "filesystem \<Rightarrow> string \<Rightarrow> pyerr + str" where
  "read_text_strict fs path =
     (case open_file (fs path) of
        Inl e \<Rightarrow> Inl e
      | Inr f \<Rightarrow> text_strict f)"

definition read_whole :: "filesystem \<Rightarrow> string \<Rightarrow> pyerr + str" where
  "read_whole fs path =
     (case read_text_strict fs path of
        Inr s \<Rightarrow> Inr s
      | Inl e \<Rightarrow>
          if e = UnicodeDecodeError then read_text_ignore fs path (- 1)
          else Inr (error_placeholder e path))"

definition safe_read_file :: "filesystem \<Rightarrow> string \<Rightarrow> int option \<Rightarrow> pyerr + str" where
  "safe_read_file fs path max_size =
     (case max_size of
        None \<Rightarrow> read_whole fs path
      | Some m \<Rightarrow>
          (case st_size (fs path) of
             Inl e \<Rightarrow> Inl e
           | Inr file_size \<Rightarrow>
               if int file_size > m then read_text_ignore fs path m
               else read_whole fs path))"

section \<open>\<^verbatim>\<open>count_lines_in_file\<close>\<close>

definition MiB :: nat where
  "MiB = 1024 * 1024"

text \<open>
  \<^verbatim>\<open>sum(chunk.count(b'\n') for chunk in iter(lambda: f.read(1024 * 1024), b''))\<close>, the
  handle at offset \<open>pos\<close>.
\<close>

function sum_chunk_newlines :: "handle \<Rightarrow> nat \<Rightarrow> pyerr + nat" where
  "sum_chunk_newlines h pos =
     (case pread h pos MiB of
        Inl e \<Rightarrow> Inl e
      | Inr chunk \<Rightarrow>
          if chunk = [] then Inr 0
          else (case sum_chunk_newlines h (pos + length chunk) of
                  Inl e \<Rightarrow> Inl e
                | Inr n \<Rightarrow> Inr (count_list chunk NL + n)))"
  by pat_completeness auto
termination
proof (relation "measure (\<lambda>(h, pos). length (contents h) - pos)")
  show "wf (measure (\<lambda>(h, pos). length (contents h) - pos))" by simp
next
  fix h pos chunk
  assume r: "pread h pos MiB = Inr chunk" and ne: "chunk \<noteq> []"
  from r have c: "chunk = take MiB (drop pos (contents h))"
    by (simp add: pread_def split: if_splits)
  with ne have "pos < length (contents h)"
    by (cases "pos < length (contents h)") simp_all
  moreover from ne obtain x xs where "chunk = x # xs"
    by (cases chunk) simp_all
  ultimately show "((h, pos + length chunk), (h, pos)) \<in> measure (\<lambda>(h, pos). length (contents h) - pos)"
    by simp
qed

text \<open>
  The inner \<^verbatim>\<open>try\<close> of the second \<^verbatim>\<open>with\<close>: the early \<^verbatim>\<open>return 0\<close> for an empty file, or
  the count after the look at the last byte (\<^verbatim>\<open>f.seek(-1, os.SEEK_END)\<close> raises
  \<^verbatim>\<open>OSError\<close> on an empty file).
\<close>

definition last_byte_check :: "filesystem \<Rightarrow> string \<Rightarrow> handle \<Rightarrow> nat \<Rightarrow> pyerr + nat" where
  "last_byte_check fs path f line_count =
     (case st_size (fs path) of
        Inl e \<Rightarrow> Inl e
      | Inr file_size \<Rightarrow>
          if file_size = 0 then Inr 0
          else if contents f = [] then Inl OSError
          else (case pread f (length (contents f) - 1) 1 of
                  Inl e \<Rightarrow> Inl e
                | Inr last_char \<Rightarrow>
                    Inr (if last_char \<noteq> [NL] then line_count + 1 else line_count)))"

definition count_lines_body :: "filesystem \<Rightarrow> string \<Rightarrow> pyerr + nat" where
  "count_lines_body fs path =
     (case open_file (fs path) of
        Inl e \<Rightarrow> Inl e
      | Inr f \<Rightarrow>
          (case sum_chunk_newlines f 0 of
             Inl e \<Rightarrow> Inl e
           | Inr line_count \<Rightarrow>
               (case open_file (fs path) of
                  Inl e \<Rightarrow> Inl e
                | Inr f2 \<Rightarrow>
                    (case last_byte_check fs path f2 line_count of
                       Inr n \<Rightarrow> Inr n
                     | Inl e \<Rightarrow> if is_OSError e then Inr line_count else Inl e))))"

text \<open>The outer \<^verbatim>\<open>except Exception\<close>: a warning is logged and 0 returned.\<close>

definition count_lines_in_file :: "filesystem \<Rightarrow> string \<Rightarrow> pyerr + nat" where
  "count_lines_in_file fs path =
     (case count_lines_body fs path of
        Inl e \<Rightarrow> Inr 0
      | Inr n \<Rightarrow> Inr n)"

section \<open>\<^verbatim>\<open>is_text_file\<close>\<close>

text \<open>
  \<^verbatim>\<open>path.name\<close> is the part after the last separator, and \<^verbatim>\<open>path.suffix\<close> is
  \<^verbatim>\<open>name[i:]\<close> for \<^verbatim>\<open>i = name.rfind('.')\<close> when \<^verbatim>\<open>0 < i < len(name) - 1\<close>, else empty.
  A path is the string \<^verbatim>\<open>str(path)\<close>, without a trailing separator; \<^verbatim>\<open>lower()\<close> acts on
  the ASCII letters.
\<close>

definition path_name :: "string \<Rightarrow> string" where
  "path_name p = rev (takeWhile (\<lambda>c. c \<noteq> CHR ''/'') (rev p))"

definition path_suffix :: "string \<Rightarrow> string" where
  "path_suffix p =
     (let name = path_name p;
          ext = rev (takeWhile (\<lambda>c. c \<noteq> CHR ''.'') (rev name))
      in if CHR ''.'' \<in> set name \<and> 0 < length name - 1 - length ext \<and> ext \<noteq> []
         then CHR ''.'' # ext else [])"

definition lower_char :: "char \<Rightarrow> char" where
  "lower_char c =
     (if (65::nat) \<le> of_char c \<and> of_char c \<le> (90::nat) then char_of (of_char c + (32::nat)) else c)"

definition lower :: "string \<Rightarrow> string" where
  "lower s = map lower_char s"

definition text_mime_types :: "string list" where
  "text_mime_types =
     [''application/json'', ''application/xml'', ''application/javascript'',
      ''application/x-python'', ''application/x-ruby'', ''application/x-sh'']"

definition is_text_mime :: "string \<Rightarrow> bool" where
  "is_text_mime m \<longleftrightarrow> take 5 m = ''text/'' \<or> m \<in> set text_mime_types"

definition text_extensions :: "string list" where
  "text_extensions =
     [''.txt'', ''.md'', ''.py'', ''.js'', ''.ts'', ''.html'', ''.css'', ''.json'', ''.xml'',
      ''.yml'', ''.yaml'', ''.ini'', ''.conf'', ''.cfg'', ''.sh'', ''.bash'', ''.c'', ''.cpp'',
      ''.h'', ''.hpp'', ''.java'', ''.rb'', ''.pl'', ''.php'', ''.rs'', ''.go'', ''.swift'',
      ''.kt'', ''.kts'', ''.dart'', ''.lua'', ''.ex'', ''.exs'', ''.clj'', ''.scala'', ''.sql'']"

text \<open>The last resort: the first 4096 bytes, inside the \<^verbatim>\<open>try\<close>.\<close>

definition sniff :: "filesystem \<Rightarrow> string \<Rightarrow> pyerr + bool" where
  "sniff fs path =
     (case open_file (fs path) of
        Inl e \<Rightarrow> Inl e
      | Inr f \<Rightarrow>
          (case pread f 0 4096 of
             Inl e \<Rightarrow> Inl e
           | Inr content \<Rightarrow>
               if CHR 0x00 \<in> set content then Inr False
               else (case decode_strict content of
                       Inr s \<Rightarrow> Inr True
                     | Inl e \<Rightarrow> if e = UnicodeDecodeError then Inr False else Inl e)))"

text \<open>
  \<open>guess_type\<close> stands for \<^verbatim>\<open>mimetypes.guess_type\<close>, whose table belongs to the Python
  installation and the host: it is a parameter.  An empty type is as good as none
  (\<^verbatim>\<open>if mime_type:\<close>).
\<close>

definition is_text_file :: "(string \<Rightarrow> string option) \<Rightarrow> filesystem \<Rightarrow> string \<Rightarrow> pyerr + bool" where
  "is_text_file guess_type fs path =
     (case (case guess_type (path_name path) of
              None \<Rightarrow> None
            | Some m \<Rightarrow> if m = [] then None else Some m) of
        Some mime_type \<Rightarrow> Inr (is_text_mime mime_type)
      | None \<Rightarrow>
          if lower (path_suffix path) \<in> set text_extensions then Inr True
          else (case sniff fs path of
                  Inl e \<Rightarrow> Inr False
                | Inr b \<Rightarrow> Inr b))"

section \<open>\<^verbatim>\<open>get_file_info\<close>\<close>

datatype file_info =
    FileInfo (info_path: string) (info_name: string) (info_extension: string)
      (info_size_bytes: nat) (info_is_text: bool) (info_last_modified: nat)
      (info_line_count: "nat option")
  | ErrorInfo (error_path: string) (error_text: string)

text \<open>\<open>mtime\<close> gives \<^verbatim>\<open>st_mtime\<close> of the paths that \<^verbatim>\<open>stat\<close> finds.\<close>

definition file_info_body ::
    "(string \<Rightarrow> string option) \<Rightarrow> (string \<Rightarrow> nat) \<Rightarrow> filesystem \<Rightarrow> string \<Rightarrow> pyerr + file_info" where
  "file_info_body guess_type mtime fs path =
     (case st_size (fs path) of
        Inl e \<Rightarrow> Inl e
      | Inr file_size \<Rightarrow>
          (case is_text_file guess_type fs path of
             Inl e \<Rightarrow> Inl e
           | Inr txt \<Rightarrow>
               if txt then
                 (case count_lines_in_file fs path of
                    Inl e \<Rightarrow> Inl e
                  | Inr n \<Rightarrow>
                      Inr (FileInfo path (path_name path) (path_suffix path) file_size txt
                             (mtime path) (Some n)))
               else Inr (FileInfo path (path_name path) (path_suffix path) file_size txt
                           (mtime path) None)))"

definition get_file_info ::
    "(string \<Rightarrow> string option) \<Rightarrow> (string \<Rightarrow> nat) \<Rightarrow> filesystem \<Rightarrow> string \<Rightarrow> pyerr + file_info" where
  "get_file_info guess_type mtime fs path =
     (case file_info_body guess_type mtime fs path of
        Inl e \<Rightarrow> Inr (ErrorInfo path (str_of_error e path))
      | Inr info \<Rightarrow> Inr info)"

section \<open>\<^verbatim>\<open>parallel_process\<close>\<close>

text \<open>
  What the pool's host decides: the number of processors, whether \<^verbatim>\<open>tqdm\<close> can be
  imported, and the order in which \<^verbatim>\<open>as_completed\<close> hands the futures over (the indices
  of the submitted futures, each once).
\<close>

record pool_env =
  cpu_count :: "nat option"
  tqdm_installed :: bool
  completion_order :: "nat list"

text \<open>What a run leaves behind: the results, the errors logged and the progress count.\<close>

record 'r outcome =
  results :: "'r list"
  logged :: "pyerr list"
  progress :: nat

definition default_workers :: "nat option \<Rightarrow> int" where
  "default_workers cpu =
     min 32 (int (case cpu of None \<Rightarrow> 4 | Some n \<Rightarrow> if n = 0 then 4 else n) + 4)"

text \<open>
  The loop over \<^verbatim>\<open>as_completed\<close>: a future's result is appended, its exception is logged,
  and with a progress bar the counter advances either way (\<^verbatim>\<open>finally\<close>).
\<close>

fun collect :: "bool \<Rightarrow> (pyerr + 'r) list \<Rightarrow> 'r outcome \<Rightarrow> 'r outcome" where
  "collect show_progress [] st = st"
| "collect show_progress (future # rest) st =
     collect show_progress rest
       ((case future of
           Inr r \<Rightarrow> st\<lparr>results := results st @ [r]\<rparr>
         | Inl e \<Rightarrow> st\<lparr>logged := logged st @ [e]\<rparr>)
        \<lparr>progress := (if show_progress then progress st + 1 else progress st)\<rparr>)"

definition parallel_process ::
    "pool_env \<Rightarrow> 'a list \<Rightarrow> ('a \<Rightarrow> pyerr + 'r) \<Rightarrow> int option \<Rightarrow> bool \<Rightarrow> pyerr + 'r outcome" where
  "parallel_process env items process_func max_workers show_progress =
     (let workers = (case max_workers of None \<Rightarrow> default_workers (cpu_count env) | Some w \<Rightarrow> w)
      in if show_progress \<and> \<not> tqdm_installed env then Inl ImportError
         else if workers \<le> 0 then Inl ValueError
         else
           (let futures = map process_func items
            in Inr (collect show_progress (map (\<lambda>i. futures ! i) (completion_order env))
                      \<lparr>results = [], logged = [], progress = 0\<rparr>)))"

section \<open>\<^verbatim>\<open>memory_efficient_file_sample\<close>\<close>

definition chunk_size :: nat where
  "chunk_size = 4096"

definition inline_marker :: str where
  "inline_marker = ascii ''...\<newline>[content truncated]\<newline>...''"

definition truncation_marker :: str where
  "truncation_marker = ascii ''\<newline>...\<newline>[content truncated]\<newline>...\<newline>''"

text \<open>Python's \<^verbatim>\<open>s[:n]\<close> and \<^verbatim>\<open>s[n:]\<close>, a negative \<open>n\<close> counting from the end.\<close>

definition slice_to :: "int \<Rightarrow> 'a list \<Rightarrow> 'a list" where
  "slice_to n s = (if 0 \<le> n then take (nat n) s else take (length s - nat (- n)) s)"

definition slice_from :: "int \<Rightarrow> 'a list \<Rightarrow> 'a list" where
  "slice_from n s = (if 0 \<le> n then drop (nat n) s else drop (length s - nat (- n)) s)"

text \<open>\<^verbatim>\<open>f.readline()\<close>: the line with its newline, and what is left to read.\<close>

fun readline :: "str \<Rightarrow> str \<times> str" where
  "readline [] = ([], [])"
| "readline (c # cs) =
     (if c = 10 then ([c], cs)
      else (case readline cs of (l, rest) \<Rightarrow> (c # l, rest)))"

fun read_first_lines :: "nat \<Rightarrow> str \<Rightarrow> str list" where
  "read_first_lines 0 s = []"
| "read_first_lines (Suc n) s =
     (case readline s of
        (line, rest) \<Rightarrow> if line = [] then [] else line # read_first_lines n rest)"

text \<open>\<^verbatim>\<open>chunk.split('\n')\<close>.\<close>

fun split_nl :: "str \<Rightarrow> str list" where
  "split_nl [] = [[]]"
| "split_nl (c # cs) =
     (if c = 10 then [] # split_nl cs
      else (case split_nl cs of
              [] \<Rightarrow> [[c]]
            | l # ls \<Rightarrow> (c # l) # ls))"

text \<open>\<^verbatim>\<open>'\n'.join(lines)\<close>.\<close>

fun join_nl :: "str list \<Rightarrow> str" where
  "join_nl [] = []"
| "join_nl [l] = l"
| "join_nl (l # m # ls) = l @ 10 # join_nl (m # ls)"

text \<open>\<^verbatim>\<open>deque(maxlen=k).appendleft(x)\<close>: a full deque drops its right end.\<close>

definition appendleft :: "nat \<Rightarrow> 'a \<Rightarrow> 'a list \<Rightarrow> 'a list" where
  "appendleft maxlen x d =
     (if maxlen = 0 then []
      else if maxlen \<le> length d then x # butlast d
      else x # d)"

text \<open>The \<^verbatim>\<open>for line in reversed(lines)\<close> loop with its \<^verbatim>\<open>break\<close>.\<close>

fun push_lines :: "nat \<Rightarrow> str list \<Rightarrow> str list \<Rightarrow> str list" where
  "push_lines sample_lines [] last_lines = last_lines"
| "push_lines sample_lines (line # rest) last_lines =
     (let d = (if line \<noteq> [] then appendleft sample_lines line last_lines else last_lines)
      in if sample_lines \<le> length d then d else push_lines sample_lines rest d)"

text \<open>The \<^verbatim>\<open>while position > 0 and line_count < sample_lines\<close> loop over backward chunks.\<close>

function tail_loop :: "handle \<Rightarrow> nat \<Rightarrow> nat \<Rightarrow> nat \<Rightarrow> str list \<Rightarrow> pyerr + str list" where
  "tail_loop f sample_lines position line_count last_lines =
     (if 0 < position \<and> line_count < sample_lines then
        (case pread f (position - min chunk_size position) (min chunk_size position) of
           Inl e \<Rightarrow> Inl e
         | Inr raw \<Rightarrow>
             tail_loop f sample_lines (position - min chunk_size position)
               (line_count + (length (split_nl (decode_ignore raw)) - 1))
               (push_lines sample_lines (rev (split_nl (decode_ignore raw))) last_lines))
      else Inr last_lines)"
  by pat_completeness auto
termination
  by (relation "measure (\<lambda>(f, k, position, n, d). position)") (auto simp: chunk_size_def)

text \<open>
  The first lines are read only when \<^verbatim>\<open>range(sample_lines)\<close> is not empty;
  \<^verbatim>\<open>deque(maxlen=sample_lines)\<close> raises \<^verbatim>\<open>ValueError\<close> for a negative length.
\<close>

definition head_lines :: "handle \<Rightarrow> int \<Rightarrow> pyerr + str list" where
  "head_lines f sample_lines =
     (if sample_lines \<le> 0 then Inr []
      else (case text_ignore f of
              Inl e \<Rightarrow> Inl e
            | Inr s \<Rightarrow> Inr (read_first_lines (nat sample_lines) s)))"

definition line_sample :: "filesystem \<Rightarrow> string \<Rightarrow> int \<Rightarrow> pyerr + str" where
  "line_sample fs path sample_lines =
     (case open_file (fs path) of
        Inl e \<Rightarrow> Inl e
      | Inr f \<Rightarrow>
          (case head_lines f sample_lines of
             Inl e \<Rightarrow> Inl e
           | Inr first_lines \<Rightarrow>
               if sample_lines < 0 then Inl ValueError
               else
                 (case open_file (fs path) of
                    Inl e \<Rightarrow> Inl e
                  | Inr fb \<Rightarrow>
                      (case tail_loop fb (nat sample_lines) (length (contents fb)) 0 [] of
                         Inl e \<Rightarrow> Inl e
                       | Inr last_lines \<Rightarrow>
                           (case count_lines_in_file fs path of
                              Inl e \<Rightarrow> Inl e
                            | Inr total_lines \<Rightarrow>
                                Inr (concat first_lines
                                     @ (if first_lines \<noteq> [] \<and> last_lines \<noteq> []
                                            \<and> length first_lines < total_lines
                                        then truncation_marker else [])
                                     @ join_nl last_lines))))))"

definition sample_body :: "filesystem \<Rightarrow> string \<Rightarrow> int \<Rightarrow> int \<Rightarrow> pyerr + str" where
  "sample_body fs path sample_lines max_size =
     (case st_size (fs path) of
        Inl e \<Rightarrow> Inl e
      | Inr file_size \<Rightarrow>
          if file_size = 0 then Inr []
          else if int file_size < max_size * 2 then
            (case open_file (fs path) of
               Inl e \<Rightarrow> Inl e
             | Inr f \<Rightarrow>
                 (case text_ignore f of
                    Inl e \<Rightarrow> Inl e
                  | Inr s \<Rightarrow>
                      (let content = read_chars max_size s
                       in if int (length content) \<le> max_size then Inr content
                          else Inr (slice_to (max_size div 2) content @ inline_marker
                                    @ slice_from (- max_size div 2) content))))
          else line_sample fs path sample_lines)"

definition memory_efficient_file_sample :: "filesystem \<Rightarrow> string \<Rightarrow> int \<Rightarrow> int \<Rightarrow> pyerr + str" where
  "memory_efficient_file_sample fs path sample_lines max_size =
     (case sample_body fs path sample_lines max_size of
        Inl e \<Rightarrow> Inr (error_placeholder e path)
      | Inr s \<Rightarrow> Inr s)"

section \<open>Vocabulary of the properties\<close>

text \<open>A file of newline-terminated lines: each line followed by one newline byte.\<close>

definition terminated_lines :: "bytes list \<Rightarrow> bytes" where
  "terminated_lines ls = concat (map (\<lambda>l. l @ [NL]) ls)"

text \<open>
  Bytes that text mode hands over unchanged: ASCII without carriage returns (no multi-byte
  sequence to decode, no newline to translate).
\<close>

definition plain_ascii :: "bytes \<Rightarrow> bool" where
  "plain_ascii b = list_all (\<lambda>c. (of_char c :: nat) < 128 \<and> c \<noteq> CHR 0x0D) b"

text \<open>
  A MIME table for the examples: pairs of a suffix and its type, looked up by the
  lower-cased suffix of the name.
\<close>

definition mime_by_suffix :: "(string \<times> string) list \<Rightarrow> string \<Rightarrow> string option" where
  "mime_by_suffix table name = map_of table (lower (path_suffix name))"

text \<open>The operation of the executor's error test: it raises for 3 and squares the rest.\<close>

definition failing_function :: "int \<Rightarrow> pyerr + int" where
  "failing_function x = (if x = 3 then Inl ValueError else Inr (x * x))"

text \<open>\<^verbatim>\<open>str(n)\<close> for a natural number: its decimal digits.\<close>

fun decimal :: "nat \<Rightarrow> string" where
  "decimal n =
     (if n < 10 then [char_of (48 + n)]
      else decimal (n div 10) @ [char_of (48 + n mod 10)])"

text \<open>The file of the sampler's test: the lines \<^verbatim>\<open>Line 0\<close> to \<^verbatim>\<open>Line n-1\<close>, each terminated.\<close>

definition numbered_lines :: "nat \<Rightarrow> bytes" where
  "numbered_lines n = terminated_lines (map (\<lambda>i. ''Line '' @ decimal i) [0..<n])"

text \<open>
  Five terminated lines, the last two of 3000 letters each: 6008 bytes, so that the last
  4096-byte chunk starts inside the fourth line.
\<close>

definition long_lines_file :: bytes where
  "long_lines_file =
     terminated_lines [''a'', ''b'', ''c'', replicate 3000 (CHR ''x''), replicate 3000 (CHR ''y'')]"

text \<open>The bytes of the file that a path names, readable or not; none for a missing path.\<close>

fun file_bytes :: "node \<Rightarrow> bytes" where
  "file_bytes Absent = []"
| "file_bytes (NoAccess b) = b"
| "file_bytes (BadDevice b) = b"
| "file_bytes (Regular b) = b"

section \<open>Facts about the line counter\<close>

declare sum_chunk_newlines.simps [simp del]
declare tail_loop.simps [simp del]

lemma MiB_pos: "0 < MiB"
  by (simp add: MiB_def)

lemma sum_chunk_newlines_sound:
  "\<not> faulty h \<Longrightarrow> sum_chunk_newlines h pos = Inr (count_list (drop pos (contents h)) NL)"
proof (induction h pos rule: sum_chunk_newlines.induct)
  case (1 h pos)
  let ?chunk = "take MiB (drop pos (contents h))"
  have rd: "pread h pos MiB = Inr ?chunk"
    using "1.prems" by (simp add: pread_def)
  show ?case
  proof (cases "?chunk = []")
    case True
    with MiB_pos have "drop pos (contents h) = []"
      by (simp add: take_eq_Nil)
    with True rd show ?thesis
      by (subst sum_chunk_newlines.simps) simp
  next
    case False
    have ih: "sum_chunk_newlines h (pos + length ?chunk)
                = Inr (count_list (drop (pos + length ?chunk) (contents h)) NL)"
      using "1.IH" [OF rd False] "1.prems" by simp
    have "drop pos (contents h) = ?chunk @ drop MiB (drop pos (contents h))"
      by (rule append_take_drop_id [symmetric])
    also have "drop MiB (drop pos (contents h)) = drop (pos + length ?chunk) (contents h)"
      by (cases "MiB \<le> length (contents h) - pos") (simp_all add: min_def add.commute)
    finally have sp: "count_list (drop pos (contents h)) NL
        = count_list ?chunk NL + count_list (drop (pos + length ?chunk) (contents h)) NL"
      by (metis count_list_append)
    from False rd ih sp show ?thesis
      by (subst sum_chunk_newlines.simps) simp
  qed
qed

lemma count_lines_regular:
  "fs p = Regular b \<Longrightarrow>
     count_lines_in_file fs p =
       Inr (if b = [] then 0 else if last b = NL then count_list b NL else count_list b NL + 1)"
proof -
  assume f: "fs p = Regular b"
  have "b \<noteq> [] \<Longrightarrow> drop (length b - Suc 0) b = [last b]"
    by (metis One_nat_def append_butlast_last_id append_eq_conv_conj length_butlast)
  then have lb: "b \<noteq> [] \<Longrightarrow> take (Suc 0) (drop (length b - Suc 0) b) = [last b]"
    by simp
  show ?thesis
    using f lb
    by (simp add: count_lines_in_file_def count_lines_body_def last_byte_check_def
        sum_chunk_newlines_sound pread_def)
qed

lemma count_terminated:
  "list_all (\<lambda>l. NL \<notin> set l) ls \<Longrightarrow> count_list (terminated_lines ls) NL = length ls"
  by (induction ls) (simp_all add: terminated_lines_def count_list_0_iff)

lemma last_terminated: "ls \<noteq> [] \<Longrightarrow> last (terminated_lines ls) = NL"
  by (induction ls) (simp_all add: terminated_lines_def)

lemma terminated_snoc: "terminated_lines (ls @ [l]) = terminated_lines ls @ l @ [NL]"
  by (simp add: terminated_lines_def)

lemma count_lines_terminated:
  assumes "list_all (\<lambda>l. NL \<notin> set l) ls" and "fs p = Regular (terminated_lines ls)"
  shows "count_lines_in_file fs p = Inr (length ls)"
proof (cases "ls = []")
  case True
  with assms show ?thesis by (simp add: count_lines_regular terminated_lines_def)
next
  case False
  then have "terminated_lines ls \<noteq> []"
    by (cases ls) (simp_all add: terminated_lines_def)
  with assms False show ?thesis
    by (simp add: count_lines_regular last_terminated count_terminated)
qed

lemma count_lines_stripped:
  assumes nl: "list_all (\<lambda>l. NL \<notin> set l) ls" and ne: "ls \<noteq> []" and le: "last ls \<noteq> []"
    and f: "fs p = Regular (butlast (terminated_lines ls))"
  shows "count_lines_in_file fs p = Inr (length ls)"
proof -
  from ne obtain ks l where ls: "ls = ks @ [l]"
    by (metis append_butlast_last_id)
  with le have l: "l \<noteq> []" by simp
  from nl ls have nks: "list_all (\<lambda>l. NL \<notin> set l) ks" and nll: "NL \<notin> set l"
    by simp_all
  have b: "butlast (terminated_lines ls) = terminated_lines ks @ l"
    by (simp add: ls terminated_snoc butlast_append)
  from l nll have "last l \<noteq> NL"
    by (metis last_in_set)
  moreover have "length ls = Suc (length ks)"
    by (simp add: ls)
  ultimately show ?thesis
    using f l nll nks
    by (simp add: count_lines_regular [of fs p "butlast (terminated_lines ls)"] b
        count_terminated count_list_0_iff)
qed

lemma count_lines_single:
  "count_lines_in_file (single_file n b) n =
     Inr (if b = [] then 0 else if last b = NL then count_list b NL else count_list b NL + 1)"
  by (rule count_lines_regular) (simp add: single_file_def)

lemma count_lines_size0:
  "st_size (fs p) = Inr 0 \<Longrightarrow> count_lines_in_file fs p = Inr 0"
  by (cases "fs p")
     (simp_all add: count_lines_in_file_def count_lines_body_def last_byte_check_def
        sum_chunk_newlines_sound split: sum.splits)

lemma sample_size0:
  "st_size (fs p) = Inr 0 \<Longrightarrow> memory_efficient_file_sample fs p k m = Inr []"
  by (simp add: memory_efficient_file_sample_def sample_body_def)

section \<open>Facts about the codec on plain ASCII\<close>

lemma utf8_scan_ascii: "list_all (\<lambda>n. n < 128) ns \<Longrightarrow> utf8_scan ns = map Some ns"
  by (induction ns) simp_all

lemma map_filter_Some: "List.map_filter (\<lambda>x. x) (map (Some \<circ> f) xs) = map f xs"
  by (induction xs) (simp_all add: List.map_filter_simps)

lemma decode_ignore_ascii: "plain_ascii b \<Longrightarrow> decode_ignore b = ascii b"
proof -
  assume "plain_ascii b"
  then have "list_all (\<lambda>n. n < 128) (map of_char b :: nat list)"
    by (induction b) (simp_all add: plain_ascii_def)
  then show ?thesis
    by (simp add: decode_ignore_def utf8_scan_ascii map_filter_Some ascii_def)
qed

lemma decode_strict_ascii: "plain_ascii b \<Longrightarrow> decode_strict b = Inr (ascii b)"
proof -
  assume "plain_ascii b"
  then have "list_all (\<lambda>n. n < 128) (map of_char b :: nat list)"
    by (induction b) (simp_all add: plain_ascii_def)
  then show ?thesis
    by (simp add: decode_strict_def utf8_scan_ascii map_filter_Some ascii_def list_all_iff)
qed

lemma universal_newlines_id: "13 \<notin> set s \<Longrightarrow> universal_newlines s = s"
  by (induction s rule: universal_newlines.induct) auto

lemma of_char_CR: "(of_char c :: nat) = 13 \<longleftrightarrow> c = CHR 0x0D"
proof -
  have "(of_char c :: nat) = of_char (CHR 0x0D) \<longleftrightarrow> c = CHR 0x0D"
    by (simp only: of_char_eq_iff)
  then show ?thesis by simp
qed

lemma text_plain_ascii:
  "plain_ascii b \<Longrightarrow> universal_newlines (decode_ignore b) = ascii b"
proof -
  assume p: "plain_ascii b"
  then have "13 \<notin> set (ascii b)"
    by (induction b) (simp_all add: plain_ascii_def ascii_def of_char_CR)
  with p show ?thesis
    by (simp add: decode_ignore_ascii universal_newlines_id)
qed

lemma plain_ascii_replicate: "plain_ascii (replicate n c) \<longleftrightarrow> n = 0 \<or> ((of_char c :: nat) < 128 \<and> c \<noteq> CHR 0x0D)"
  by (induction n) (auto simp: plain_ascii_def)

section \<open>Facts about the small-file branch of the sampler\<close>

lemma read_chars_le: "0 \<le> m \<Longrightarrow> int (length (read_chars m s)) \<le> m"
  by (simp add: read_chars_def)

lemma sample_small:
  assumes "st_size (fs p) = Inr n" and "0 < n" and "int n < 2 * m"
  shows "memory_efficient_file_sample fs p k m =
           Inr (case read_text_ignore fs p m of
                  Inl e \<Rightarrow> error_placeholder e p
                | Inr content \<Rightarrow> content)"
proof -
  from assms have m: "0 \<le> m" by simp
  show ?thesis
    using assms read_chars_le [OF m]
    by (cases "fs p")
       (simp_all add: memory_efficient_file_sample_def sample_body_def read_text_ignore_def
          text_ignore_def Let_def mult.commute)
qed

lemma sample_small_regular:
  assumes "fs p = Regular b" and "b \<noteq> []" and "int (length b) < 2 * m"
  shows "memory_efficient_file_sample fs p k m =
           Inr (take (nat m) (universal_newlines (decode_ignore b)))"
  using assms sample_small [of fs p "length b" m k]
  by (simp add: read_text_ignore_def text_ignore_def read_chars_def)

section \<open>Operations that never raise\<close>

lemma count_lines_never_raises: "\<exists>n. count_lines_in_file fs p = Inr n"
  by (simp add: count_lines_in_file_def split: sum.splits)

lemma is_text_never_raises: "\<exists>b. is_text_file g fs p = Inr b"
  by (auto simp: is_text_file_def split: sum.splits option.splits)

lemma sample_never_raises: "\<exists>s. memory_efficient_file_sample fs p k m = Inr s"
  by (simp add: memory_efficient_file_sample_def split: sum.splits)

lemma get_file_info_never_raises: "\<exists>r. get_file_info g mt fs p = Inr r"
  by (simp add: get_file_info_def split: sum.splits)

lemma read_whole_never_raises: "\<exists>s. safe_read_file fs p None = Inr s"
  by (cases "fs p")
     (auto simp: safe_read_file_def read_whole_def read_text_strict_def read_text_ignore_def
        text_strict_def text_ignore_def decode_strict_def split: sum.splits if_splits)

section \<open>Facts about the classifier\<close>

lemma is_text_by_name:
  assumes "(\<exists>m. g (path_name p) = Some m \<and> m \<noteq> [] \<and> is_text_mime m)
           \<or> ((g (path_name p) = None \<or> g (path_name p) = Some [])
               \<and> lower (path_suffix p) \<in> set text_extensions)"
  shows "is_text_file g fs p = Inr True"
  using assms by (auto simp: is_text_file_def)

section \<open>Facts about the executor\<close>

lemma collect_results:
  "results (collect sp fs st) = results st @ List.map_filter (\<lambda>f. case f of Inl e \<Rightarrow> None | Inr r \<Rightarrow> Some r) fs"
  by (induction fs arbitrary: st) (simp_all add: List.map_filter_simps split: sum.splits)

lemma collect_logged:
  "logged (collect sp fs st) = logged st @ List.map_filter (\<lambda>f. case f of Inl e \<Rightarrow> Some e | Inr r \<Rightarrow> None) fs"
  by (induction fs arbitrary: st) (simp_all add: List.map_filter_simps split: sum.splits)

lemma collect_progress:
  "progress (collect sp fs st) = progress st + (if sp then length fs else 0)"
  by (induction fs arbitrary: st) (simp_all split: sum.splits)

lemma completed_futures:
  assumes "mset order = mset [0..<length futures]"
  shows "mset (map (\<lambda>i. futures ! i) order) = mset futures"
proof -
  have "mset (map (\<lambda>i. futures ! i) order) = image_mset (\<lambda>i. futures ! i) (mset order)"
    by simp
  also have "\<dots> = mset (map (\<lambda>i. futures ! i) [0..<length futures])"
    by (simp add: assms)
  also have "\<dots> = mset futures"
    by (simp add: map_nth)
  finally show ?thesis .
qed

lemma mset_map_filter_cong:
  "mset xs = mset ys \<Longrightarrow> mset (List.map_filter f xs) = mset (List.map_filter f ys)"
proof -
  assume "mset xs = mset ys"
  then have "image_mset (the \<circ> f) (filter_mset (\<lambda>x. f x \<noteq> None) (mset xs))
               = image_mset (the \<circ> f) (filter_mset (\<lambda>x. f x \<noteq> None) (mset ys))"
    by simp
  then show ?thesis
    by (simp add: List.map_filter_def)
qed

lemma default_workers_pos: "0 < default_workers cpu"
  by (simp add: default_workers_def split: option.splits)

section \<open>Facts about the line-based branch of the sampler\<close>

lemma split_nl_nonempty: "split_nl s \<noteq> []"
  by (induction s) (simp_all split: list.splits)

lemma split_nl_append: "split_nl (xs @ 10 # ys) = split_nl xs @ split_nl ys"
proof (induction xs)
  case Nil
  show ?case by simp
next
  case (Cons c xs)
  obtain l ls where s: "split_nl xs = l # ls"
    using split_nl_nonempty [of xs] by (cases "split_nl xs") simp_all
  with Cons show ?case by simp
qed

lemma split_nl_plain: "10 \<notin> set xs \<Longrightarrow> split_nl xs = [xs]"
  by (induction xs) simp_all

lemma ascii_append: "ascii (xs @ ys) = ascii xs @ ascii ys"
  by (simp add: ascii_def)

lemma ascii_NL: "ascii [NL] = [10]"
  by (simp add: ascii_def NL_def)

lemma of_char_NL: "(of_char c :: nat) = 10 \<longleftrightarrow> c = NL"
proof -
  have "(of_char c :: nat) = of_char NL \<longleftrightarrow> c = NL"
    by (simp only: of_char_eq_iff)
  then show ?thesis by (simp add: NL_def)
qed

lemma ascii_no_newline: "NL \<notin> set l \<Longrightarrow> 10 \<notin> set (ascii l)"
  by (induction l) (auto simp: ascii_def of_char_NL)

lemma ascii_eq_Nil: "ascii l = [] \<longleftrightarrow> l = []"
  by (simp add: ascii_def)

lemma split_nl_terminated:
  "list_all (\<lambda>l. NL \<notin> set l) ls \<Longrightarrow>
     split_nl (ascii (terminated_lines ls)) = map ascii ls @ [[]]"
proof (induction ls)
  case Nil
  show ?case by (simp add: terminated_lines_def ascii_def)
next
  case (Cons l ls)
  then have t: "split_nl (ascii (terminated_lines ls)) = map ascii ls @ [[]]"
    and n: "10 \<notin> set (ascii l)"
    by (simp_all add: ascii_no_newline)
  have "ascii (terminated_lines (l # ls)) = ascii l @ 10 # ascii (terminated_lines ls)"
    by (simp add: terminated_lines_def ascii_def NL_def)
  with t n show ?case
    by (simp add: split_nl_append split_nl_plain)
qed

lemma readline_line: "10 \<notin> set xs \<Longrightarrow> readline (xs @ 10 # ys) = (xs @ [10], ys)"
  by (induction xs) simp_all

lemma read_first_lines_terminated:
  "list_all (\<lambda>l. NL \<notin> set l) ls \<Longrightarrow>
     read_first_lines k (ascii (terminated_lines ls)) = map (\<lambda>l. ascii l @ [10]) (take k ls)"
proof (induction ls arbitrary: k)
  case Nil
  show ?case by (cases k) (simp_all add: terminated_lines_def ascii_def)
next
  case (Cons l ls)
  have a: "ascii (terminated_lines (l # ls)) = ascii l @ 10 # ascii (terminated_lines ls)"
    by (simp add: terminated_lines_def ascii_def NL_def)
  from Cons.prems have n: "10 \<notin> set (ascii l)"
    by (simp add: ascii_no_newline)
  show ?case
  proof (cases k)
    case 0
    then show ?thesis by simp
  next
    case (Suc j)
    with Cons a n show ?thesis
      by (simp add: readline_line)
  qed
qed

lemma push_lines_take:
  assumes "list_all (\<lambda>l. l \<noteq> []) xs" and "length d < k" and "k \<le> length d + length xs"
  shows "push_lines k (xs @ rest) d = rev (take (k - length d) xs) @ d"
  using assms
proof (induction xs arbitrary: d)
  case Nil
  then show ?case by simp
next
  case (Cons x xs)
  from Cons.prems have x: "x \<noteq> []" and al: "list_all (\<lambda>l. l \<noteq> []) xs"
    by simp_all
  from Cons.prems have ap: "appendleft k x d = x # d"
    by (simp add: appendleft_def)
  show ?case
  proof (cases "k \<le> Suc (length d)")
    case True
    with Cons.prems have "k - length d = Suc 0" by simp
    with True x ap show ?thesis by simp
  next
    case False
    then have lt: "length (x # d) < k" by simp
    from Cons.prems have le: "k \<le> length (x # d) + length xs" by simp
    from False obtain j where j: "k - length d = Suc j"
      by (cases "k - length d") simp_all
    then have j': "k - length (x # d) = j" by simp
    from Cons.IH [OF al lt le] j j' x ap False show ?thesis
      by simp
  qed
qed

lemma tail_loop_one_chunk:
  assumes nf: "\<not> faulty f" and k: "0 < k" and n: "contents f \<noteq> []"
    and sp: "split_nl (decode_ignore (drop (length (contents f) - min chunk_size (length (contents f)))
                 (contents f))) = pieces @ ts @ [[]]"
    and ne: "list_all (\<lambda>l. l \<noteq> []) ts" and len: "k \<le> length ts"
  shows "tail_loop f k (length (contents f)) 0 [] = Inr (drop (length ts - k) ts)"
proof -
  let ?n = "length (contents f)"
  let ?r = "min chunk_size ?n"
  have rd: "pread f (?n - ?r) ?r = Inr (drop (?n - ?r) (contents f))"
    using nf by (simp add: pread_def)
  have "push_lines k (rev (pieces @ ts @ [[]])) [] = push_lines k (rev ts @ rev pieces) []"
    using k by simp
  also have "\<dots> = rev (take (k - length ([] :: str list)) (rev ts)) @ []"
    by (rule push_lines_take) (use ne k len in \<open>simp_all add: list_all_iff\<close>)
  also have "\<dots> = drop (length ts - k) ts"
    by (simp add: rev_take)
  finally have ps: "push_lines k (rev (pieces @ ts @ [[]])) [] = drop (length ts - k) ts" .
  have stop: "tail_loop f k (?n - ?r) (length pieces + length ts) (drop (length ts - k) ts)
                = Inr (drop (length ts - k) ts)"
    using len by (subst tail_loop.simps) simp
  from n have "0 < ?n" by simp
  with k rd sp ps stop show ?thesis
    by (subst tail_loop.simps) simp
qed

lemma line_sample_regular:
  assumes f: "fs p = Regular b" and b: "b \<noteq> []" and big: "\<not> int (length b) < m * 2"
    and k: "0 < k" and pl: "plain_ascii b"
    and tl: "tail_loop (Handle b False) (nat k) (length b) 0 [] = Inr last_lines"
    and cnt: "count_lines_in_file fs p = Inr total_lines"
  shows "memory_efficient_file_sample fs p k m =
           Inr (concat (read_first_lines (nat k) (ascii b))
                @ (if read_first_lines (nat k) (ascii b) \<noteq> [] \<and> last_lines \<noteq> []
                      \<and> length (read_first_lines (nat k) (ascii b)) < total_lines
                   then truncation_marker else [])
                @ join_nl last_lines)"
  using assms
  by (simp add: memory_efficient_file_sample_def sample_body_def line_sample_def head_lines_def
        text_ignore_def text_plain_ascii)

lemma plain_ascii_append: "plain_ascii (xs @ ys) \<longleftrightarrow> plain_ascii xs \<and> plain_ascii ys"
  by (simp add: plain_ascii_def)

lemma plain_ascii_terminated: "list_all plain_ascii ls \<Longrightarrow> plain_ascii (terminated_lines ls)"
  by (induction ls) (simp_all add: terminated_lines_def plain_ascii_def NL_def)

lemma length_terminated: "length (terminated_lines ls) = sum_list (map length ls) + length ls"
  by (induction ls) (simp_all add: terminated_lines_def)

lemma terminated_append: "terminated_lines (xs @ ys) = terminated_lines xs @ terminated_lines ys"
  by (simp add: terminated_lines_def)

lemma length_ascii: "length (ascii s) = length s"
  by (simp add: ascii_def)

lemma length_join_nl: "length (join_nl ls) = sum_list (map length ls) + (length ls - 1)"
  by (induction ls rule: join_nl.induct) simp_all

lemma sublist_count_le: "sublist xs ys \<Longrightarrow> count_list xs a \<le> count_list ys a"
  by (auto simp: sublist_def)

lemma count_list_replicate: "count_list (replicate n x) a = (if x = a then n else 0)"
  by (induction n) auto

lemma count_ascii_replicate:
  "count_list (ascii (replicate n c)) a = (if of_char c = a then n else 0)"
  by (simp add: ascii_def count_list_replicate)

lemma sample_small_plain:
  assumes "fs p = Regular b" and "b \<noteq> []" and "int (length b) < 2 * m" and "plain_ascii b"
  shows "memory_efficient_file_sample fs p k m = Inr (take (nat m) (ascii b))"
  using assms sample_small_regular [of fs p b m k] by (simp add: text_plain_ascii)

lemma marker_length: "length truncation_marker = 29"
  by (simp add: truncation_marker_def ascii_def)

lemma drop_terminated_replicate:
  "drop (n * Suc (length l)) (terminated_lines (replicate (n + j) l)) = terminated_lines (replicate j l)"
proof -
  have "terminated_lines (replicate (n + j) l)
          = terminated_lines (replicate n l) @ terminated_lines (replicate j l)"
    by (simp add: replicate_add terminated_append)
  moreover have "length (terminated_lines (replicate n l)) = n * Suc (length l)"
    by (simp add: length_terminated sum_list_replicate)
  ultimately show ?thesis by simp
qed

lemma line_sample_single_chunk:
  assumes f: "fs p = Regular (terminated_lines ls)"
    and nl: "list_all (\<lambda>l. NL \<notin> set l) ls" and ne: "list_all (\<lambda>l. l \<noteq> []) ls"
    and pl: "plain_ascii (terminated_lines ls)"
    and one: "length (terminated_lines ls) \<le> chunk_size"
    and k: "0 < k" and many: "2 * nat k < length ls"
    and big: "\<not> int (length (terminated_lines ls)) < m * 2"
  shows "memory_efficient_file_sample fs p k m =
           Inr (concat (map (\<lambda>l. ascii l @ [10]) (take (nat k) ls)) @ truncation_marker
                @ join_nl (map ascii (drop (length ls - nat k) ls)))"
proof -
  let ?b = "terminated_lines ls"
  from many obtain l0 ls0 where ls: "ls = l0 # ls0"
    by (cases ls) simp_all
  then have bne: "?b \<noteq> []"
    by (simp add: terminated_lines_def)
  have sp: "split_nl (decode_ignore (drop (length (contents (Handle ?b False))
                - min chunk_size (length (contents (Handle ?b False)))) (contents (Handle ?b False))))
              = [] @ map ascii ls @ [[]]"
    using one split_nl_terminated [OF nl] by (simp add: min_def decode_ignore_ascii [OF pl])
  have nea: "list_all (\<lambda>l. l \<noteq> []) (map ascii ls)"
    using ne by (simp add: list_all_iff ascii_eq_Nil)
  have "tail_loop (Handle ?b False) (nat k) (length (contents (Handle ?b False))) 0 []
          = Inr (drop (length (map ascii ls) - nat k) (map ascii ls))"
    by (rule tail_loop_one_chunk [OF _ _ _ sp nea]) (use bne k many in simp_all)
  then have tl: "tail_loop (Handle ?b False) (nat k) (length ?b) 0 []
                   = Inr (map ascii (drop (length ls - nat k) ls))"
    by (simp add: drop_map)
  have cnt: "count_lines_in_file fs p = Inr (length ls)"
    by (rule count_lines_terminated [of ls fs p, OF nl f])
  have first: "read_first_lines (nat k) (ascii ?b) = map (\<lambda>l. ascii l @ [10]) (take (nat k) ls)"
    by (rule read_first_lines_terminated [OF nl])
  have c1: "take (nat k) ls \<noteq> []"
    using k ls by (cases "nat k") simp_all
  have c2: "drop (length ls - nat k) ls \<noteq> []"
    using k many by simp
  have c3: "nat k < length ls"
    using many by simp
  show ?thesis
    using line_sample_regular [of fs p ?b m k, OF f bne big k pl tl cnt] c1 c2 c3
    by (simp add: first)
qed

section \<open>A line split by a backward chunk boundary (C1)\<close>

text \<open>
  C1.  For a plain ASCII file of non-empty lines that fits one 4096-byte chunk the sample is
  the first \<open>k\<close> lines, the marker once and the last \<open>k\<close> lines
  (\<open>line_sample_single_chunk\<close>).  Across a chunk boundary it is not; the backward loop has
  no carry-over.  Of the five lines of \<open>long_lines_file\<close> and
  \<open>k = 2\<close>, the last chunk holds the last 1094 letters of the fourth line and the fifth line:
  the sampler returns that fragment as if it were a line, and the fourth line, one of the last
  two lines of the file, is not in the sample.
\<close>

theorem split_line_fragment_in_tail:
  "list_all (\<lambda>l. NL \<notin> set l) [''a'', ''b'', ''c'', replicate 3000 (CHR ''x''), replicate 3000 (CHR ''y'')]
   \<and> st_size (single_file ''long.txt'' long_lines_file ''long.txt'') = Inr 6008
   \<and> memory_efficient_file_sample (single_file ''long.txt'' long_lines_file) ''long.txt'' 2 1000
      = Inr (concat [ascii ''a\<newline>'', ascii ''b\<newline>''] @ truncation_marker
             @ join_nl [ascii (replicate 1094 (CHR ''x'')), ascii (replicate 3000 (CHR ''y''))])
   \<and> \<not> sublist (ascii (replicate 3000 (CHR ''x'')))
         (concat [ascii ''a\<newline>'', ascii ''b\<newline>''] @ truncation_marker
          @ join_nl [ascii (replicate 1094 (CHR ''x'')), ascii (replicate 3000 (CHR ''y''))])"
proof -
  let ?x = "replicate 3000 (CHR ''x'')"
  let ?y = "replicate 3000 (CHR ''y'')"
  let ?ls = "[''a'', ''b'', ''c'', ?x, ?y]"
  let ?b = "long_lines_file"
  let ?fs = "single_file ''long.txt'' ?b"
  let ?out = "concat [ascii ''a\<newline>'', ascii ''b\<newline>''] @ truncation_marker
             @ join_nl [ascii (replicate 1094 (CHR ''x'')), ascii (replicate 3000 (CHR ''y''))]"
  have f: "?fs ''long.txt'' = Regular ?b"
    by (simp add: single_file_def)
  have nl: "list_all (\<lambda>l. NL \<notin> set l) ?ls"
    by (simp add: NL_def)
  have len: "length ?b = 6008"
    by (simp add: long_lines_file_def length_terminated)
  then have ne: "?b \<noteq> []" by auto
  have pl: "plain_ascii ?b"
    unfolding long_lines_file_def
    by (rule plain_ascii_terminated) (simp add: plain_ascii_replicate, simp add: plain_ascii_def)
  have chunk: "drop 1912 ?b = terminated_lines [replicate 1094 (CHR ''x''), ?y]"
    by (simp add: long_lines_file_def terminated_lines_def)
  have nlc: "list_all (\<lambda>l. NL \<notin> set l) [replicate 1094 (CHR ''x''), ?y]"
    by (simp add: NL_def)
  have plc: "plain_ascii (terminated_lines [replicate 1094 (CHR ''x''), ?y])"
    by (rule plain_ascii_terminated) (simp add: plain_ascii_replicate)
  have sp: "split_nl (decode_ignore (drop (length (contents (Handle ?b False))
                - min chunk_size (length (contents (Handle ?b False)))) (contents (Handle ?b False))))
              = [] @ [ascii (replicate 1094 (CHR ''x'')), ascii ?y] @ [[]]"
    using split_nl_terminated [OF nlc]
    by (simp add: len chunk_size_def chunk decode_ignore_ascii [OF plc])
  have "tail_loop (Handle ?b False) 2 (length (contents (Handle ?b False))) 0 []
          = Inr (drop (length [ascii (replicate 1094 (CHR ''x'')), ascii ?y] - 2)
                   [ascii (replicate 1094 (CHR ''x'')), ascii ?y])"
    by (rule tail_loop_one_chunk [OF _ _ _ sp]) (use ne in \<open>simp_all add: ascii_def\<close>)
  then have tl: "tail_loop (Handle ?b False) (nat 2) (length ?b) 0 []
                   = Inr [ascii (replicate 1094 (CHR ''x'')), ascii ?y]"
    by simp
  have cnt: "count_lines_in_file ?fs ''long.txt'' = Inr 5"
    using count_lines_terminated [of ?ls ?fs "''long.txt''", OF nl] f
    by (simp add: long_lines_file_def)
  have first: "read_first_lines 2 (ascii ?b) = [ascii ''a'' @ [10], ascii ''b'' @ [10]]"
    using read_first_lines_terminated [OF nl, of 2]
    by (simp add: long_lines_file_def)
  have big: "\<not> int (length ?b) < 1000 * 2"
    by (simp add: len)
  have a: "ascii ''a\<newline>'' = ascii ''a'' @ [10]" "ascii ''b\<newline>'' = ascii ''b'' @ [10]"
    by (simp_all add: ascii_def)
  have res: "memory_efficient_file_sample ?fs ''long.txt'' 2 1000 = Inr ?out"
    using line_sample_regular [of ?fs "''long.txt''" ?b 1000 2, OF f ne big _ pl tl cnt]
    by (simp add: first a)
  have sz: "st_size (?fs ''long.txt'') = Inr 6008"
    by (simp add: f len)
  have cx: "count_list ?out 120 = 1094"
    by (simp add: count_ascii_replicate truncation_marker_def) (simp add: ascii_def)
  have "\<not> sublist (ascii ?x) ?out"
  proof
    assume "sublist (ascii ?x) ?out"
    then have "count_list (ascii ?x) 120 \<le> count_list ?out 120"
      by (rule sublist_count_le)
    then show False
      by (simp only: cx count_ascii_replicate) simp
  qed
  with nl sz res show ?thesis
    by blast
qed

section \<open>Null bytes and the order of the heuristics (C2)\<close>

text \<open>
  C2.  A file with a null byte among its first 4096 bytes is classified as not text, unless
  its name has a text MIME type, or has no MIME type and a known text extension (in these two
  cases the name decides and the content is not read).  The file may be unreadable, and the
  name may have a MIME type that is not a text type.
\<close>

theorem null_byte_unless_name_says_text:
  assumes "CHR 0x00 \<in> set (take 4096 (file_bytes (fs p)))"
    and "\<not> (\<exists>m. g (path_name p) = Some m \<and> m \<noteq> [] \<and> is_text_mime m)"
    and "\<not> ((g (path_name p) = None \<or> g (path_name p) = Some [])
             \<and> lower (path_suffix p) \<in> set text_extensions)"
  shows "is_text_file g fs p = Inr False"
proof (cases "g (path_name p) = None \<or> g (path_name p) = Some []")
  case True
  with assms(3) have ext: "lower (path_suffix p) \<notin> set text_extensions"
    by blast
  have "sniff fs p = Inr False \<or> (\<exists>e. sniff fs p = Inl e)"
    using assms(1) by (cases "fs p") (simp_all add: sniff_def pread_def)
  with True ext show ?thesis
    by (auto simp: is_text_file_def)
next
  case False
  then obtain m where m: "g (path_name p) = Some m" "m \<noteq> []"
    by (cases "g (path_name p)") auto
  with assms(2) have "\<not> is_text_mime m"
    by blast
  with m show ?thesis
    by (simp add: is_text_file_def)
qed

theorem null_byte_unless_name_says_text_witness:
  "CHR 0x00 \<in> set (take 4096 (file_bytes
        (single_file ''binary.bin'' [CHR ''B'', CHR 0x00, CHR ''D''] ''binary.bin'')))
   \<and> mime_by_suffix [(''.bin'', ''application/octet-stream'')] (path_name ''binary.bin'')
        = Some ''application/octet-stream''
   \<and> \<not> is_text_mime ''application/octet-stream''
   \<and> is_text_file (mime_by_suffix [(''.bin'', ''application/octet-stream'')])
        (single_file ''binary.bin'' [CHR ''B'', CHR 0x00, CHR ''D'']) ''binary.bin'' = Inr False
   \<and> mime_by_suffix [] (path_name ''binary.dat'') = None
   \<and> lower (path_suffix ''binary.dat'') \<notin> set text_extensions
   \<and> is_text_file (mime_by_suffix []) (single_file ''binary.dat'' [CHR ''B'', CHR 0x00, CHR ''D''])
        ''binary.dat'' = Inr False"
proof -
  have nt: "\<not> is_text_mime ''application/octet-stream''"
    by (simp add: is_text_mime_def text_mime_types_def)
  have m1: "mime_by_suffix [(''.bin'', ''application/octet-stream'')] (path_name ''binary.bin'')
        = Some ''application/octet-stream''"
    by (simp add: mime_by_suffix_def path_suffix_def path_name_def lower_def lower_char_def)
  have m2: "mime_by_suffix [] (path_name ''binary.dat'') = None"
    by (simp add: mime_by_suffix_def)
  have e2: "lower (path_suffix ''binary.dat'') \<notin> set text_extensions"
    by (simp add: path_suffix_def path_name_def lower_def lower_char_def text_extensions_def)
  have n1: "CHR 0x00 \<in> set (take 4096 (file_bytes
        (single_file ''binary.bin'' [CHR ''B'', CHR 0x00, CHR ''D''] ''binary.bin'')))"
    by (simp add: single_file_def)
  have n2: "CHR 0x00 \<in> set (take 4096 (file_bytes
        (single_file ''binary.dat'' [CHR ''B'', CHR 0x00, CHR ''D''] ''binary.dat'')))"
    by (simp add: single_file_def)
  have r1: "is_text_file (mime_by_suffix [(''.bin'', ''application/octet-stream'')])
        (single_file ''binary.bin'' [CHR ''B'', CHR 0x00, CHR ''D'']) ''binary.bin'' = Inr False"
    using null_byte_unless_name_says_text
      [of "single_file ''binary.bin'' [CHR ''B'', CHR 0x00, CHR ''D'']" "''binary.bin''"
          "mime_by_suffix [(''.bin'', ''application/octet-stream'')]", OF n1] m1 nt
    by simp
  have r2: "is_text_file (mime_by_suffix []) (single_file ''binary.dat'' [CHR ''B'', CHR 0x00, CHR ''D''])
        ''binary.dat'' = Inr False"
    using null_byte_unless_name_says_text
      [of "single_file ''binary.dat'' [CHR ''B'', CHR 0x00, CHR ''D'']" "''binary.dat''"
          "mime_by_suffix []", OF n2] m2 e2
    by simp
  from n1 m1 nt r1 m2 e2 r2 show ?thesis
    by blast
qed

text \<open>
  As stated, C2 holds regardless of name, extension and MIME type.  It does not: the name is
  looked at first, and \<^verbatim>\<open>notes.txt\<close> with a null byte is text, whether the MIME table
  knows \<^verbatim>\<open>.txt\<close> or not.
\<close>

theorem null_byte_text_name_counterexample:
  "CHR 0x00 \<in> set (take 4096 [CHR ''B'', CHR 0x00, CHR ''D''])
   \<and> is_text_file (mime_by_suffix []) (single_file ''notes.txt'' [CHR ''B'', CHR 0x00, CHR ''D''])
        ''notes.txt'' = Inr True
   \<and> is_text_file (mime_by_suffix [(''.txt'', ''text/plain'')])
        (single_file ''notes.txt'' [CHR ''B'', CHR 0x00, CHR ''D'']) ''notes.txt'' = Inr True"
  by (simp add: single_file_def mime_by_suffix_def path_suffix_def path_name_def lower_def
        lower_char_def is_text_mime_def is_text_file_def text_extensions_def text_mime_types_def)

section \<open>An I/O error that reaches the caller (C3)\<close>

text \<open>
  C3.  The line counter, the classifier, the sampler and the file-info extractor convert
  every exception to a default (the lemmas of the previous section), and so does the reader
  without a size limit.  The bounded reader does not: with a \<open>max_size\<close> it calls
  \<^verbatim>\<open>path.stat()\<close> outside of any \<^verbatim>\<open>try\<close>, and for a missing file the
  \<^verbatim>\<open>FileNotFoundError\<close> reaches the caller.
\<close>

theorem bounded_read_raises:
  "safe_read_file (single_file ''present.txt'' ''abc'') ''missing.txt'' (Some 100) = Inl FileNotFoundError"
  by (simp add: safe_read_file_def single_file_def)

section \<open>The hundred numbered lines (C4)\<close>

text \<open>
  C4.  The file of the lines \<^verbatim>\<open>Line 0\<close> to \<^verbatim>\<open>Line 99\<close> has 790 bytes, fewer than
  \<open>2 * 5000\<close>: with 5 sample lines and \<open>max_size = 5000\<close> the sampler takes the small-file
  branch and returns the whole file, which holds every line and no
  \<^verbatim>\<open>[content truncated]\<close> marker, where the claim and the repository's test want the marker.
\<close>

theorem whole_file_without_marker:
  "memory_efficient_file_sample (single_file ''large.txt'' (numbered_lines 100)) ''large.txt'' 5 5000
      = Inr (ascii (numbered_lines 100))
   \<and> \<not> sublist (ascii ''[content truncated]'') (ascii (numbered_lines 100))"
proof
  have len: "length (numbered_lines 100) = 790"
    by code_simp
  have pl: "plain_ascii (numbered_lines 100)"
    by code_simp
  from len have ne: "numbered_lines 100 \<noteq> []"
    by auto
  have f: "single_file ''large.txt'' (numbered_lines 100) ''large.txt'' = Regular (numbered_lines 100)"
    by (simp add: single_file_def)
  from len have sz: "int (length (numbered_lines 100)) < 2 * 5000"
    by simp
  from sample_small_plain
         [of "single_file ''large.txt'' (numbered_lines 100)" "''large.txt''" "numbered_lines 100",
          OF f ne sz pl, of 5] len
  show "memory_efficient_file_sample (single_file ''large.txt'' (numbered_lines 100)) ''large.txt'' 5 5000
      = Inr (ascii (numbered_lines 100))"
    by (simp add: length_ascii)
next
  have nb: "CHR ''['' \<notin> set (numbered_lines 100)"
    by code_simp
  show "\<not> sublist (ascii ''[content truncated]'') (ascii (numbered_lines 100))"
  proof
    assume "sublist (ascii ''[content truncated]'') (ascii (numbered_lines 100))"
    then have "set (ascii ''[content truncated]'') \<subseteq> set (ascii (numbered_lines 100))"
      by (rule set_mono_sublist)
    moreover have "of_char (CHR ''['') \<in> set (ascii ''[content truncated]'')"
      by (simp add: ascii_def)
    ultimately have "(of_char (CHR ''['') :: nat) \<in> of_char ` set (numbered_lines 100)"
      by (auto simp: ascii_def)
    then have "CHR ''['' \<in> set (numbered_lines 100)"
      by (auto simp only: of_char_eq_iff)
    with nb show False by simp
  qed
qed

section \<open>The budget slice of the small-file branch (C5)\<close>

text \<open>
  C5.  On the small-file branch (a readable file of positive size below \<open>2 * max_size\<close>) whose
  text has at least \<open>max_size\<close> characters, the sample is the first \<open>max_size\<close> characters
  of the text, of length exactly \<open>max_size\<close>.
\<close>

theorem small_file_slice_from_start:
  assumes "fs p = Regular b" and "b \<noteq> []" and "int (length b) < 2 * m"
    and "nat m \<le> length (universal_newlines (decode_ignore b))"
  shows "memory_efficient_file_sample fs p k m = Inr (take (nat m) (universal_newlines (decode_ignore b)))
         \<and> int (length (take (nat m) (universal_newlines (decode_ignore b)))) = m"
  using assms sample_small_regular [of fs p b m k] by simp

theorem small_file_slice_from_start_witness:
  "single_file ''f.dat'' (replicate 150 (CHR ''a'')) ''f.dat'' = Regular (replicate 150 (CHR ''a''))
   \<and> replicate 150 (CHR ''a'') \<noteq> []
   \<and> int (length (replicate 150 (CHR ''a''))) < 2 * 100
   \<and> universal_newlines (decode_ignore (replicate 150 (CHR ''a''))) = replicate 150 97
   \<and> memory_efficient_file_sample (single_file ''f.dat'' (replicate 150 (CHR ''a''))) ''f.dat'' 10 100
        = Inr (take 100 (replicate 150 97))
   \<and> length (take 100 (replicate 150 (97::nat))) = 100"
proof -
  have f: "single_file ''f.dat'' (replicate 150 (CHR ''a'')) ''f.dat'' = Regular (replicate 150 (CHR ''a''))"
    by (simp add: single_file_def)
  have t: "universal_newlines (decode_ignore (replicate 150 (CHR ''a''))) = replicate 150 97"
    by (simp add: text_plain_ascii plain_ascii_replicate ascii_def)
  from small_file_slice_from_start
         [of "single_file ''f.dat'' (replicate 150 (CHR ''a''))" "''f.dat''"
             "replicate 150 (CHR ''a'')" 100 10] f t
  show ?thesis by simp
qed

text \<open>
  As stated, C5 puts a 10 KB file with \<open>max_size = 100\<close> on the small-file branch.  It is not:
  10240 is not below 200, and the line-based branch answers with the first ten lines, the
  marker and the last ten lines, 188 characters in all.
\<close>

theorem ten_kilobytes_line_branch_counterexample:
  "st_size (single_file ''big.txt'' (terminated_lines (replicate 1280 ''abcdefg'')) ''big.txt'') = Inr 10240
   \<and> memory_efficient_file_sample
        (single_file ''big.txt'' (terminated_lines (replicate 1280 ''abcdefg''))) ''big.txt'' 10 100
      = Inr (concat (replicate 10 (ascii ''abcdefg\<newline>'')) @ truncation_marker
             @ join_nl (replicate 10 (ascii ''abcdefg'')))
   \<and> length (concat (replicate 10 (ascii ''abcdefg\<newline>'')) @ truncation_marker
             @ join_nl (replicate 10 (ascii ''abcdefg''))) = 188"
proof -
  let ?l = "''abcdefg''"
  let ?b = "terminated_lines (replicate 1280 ?l)"
  let ?fs = "single_file ''big.txt'' ?b"
  have f: "?fs ''big.txt'' = Regular ?b"
    by (simp add: single_file_def)
  have len: "length ?b = 10240"
    by (simp add: length_terminated sum_list_replicate)
  then have ne: "?b \<noteq> []" by auto
  have nl: "list_all (\<lambda>l. NL \<notin> set l) (replicate n ?l)" for n
    by (simp add: list_all_iff NL_def)
  have pl: "plain_ascii ?b"
    by (rule plain_ascii_terminated) (simp add: list_all_iff plain_ascii_def)
  have "drop (768 * Suc (length ?l)) (terminated_lines (replicate (768 + 512) ?l))
          = terminated_lines (replicate 512 ?l)"
    by (rule drop_terminated_replicate)
  then have chunk: "drop 6144 ?b = terminated_lines (replicate 512 ?l)"
    by simp
  have plc: "plain_ascii (terminated_lines (replicate 512 ?l))"
    by (rule plain_ascii_terminated) (simp add: list_all_iff plain_ascii_def)
  have sp: "split_nl (decode_ignore (drop (length (contents (Handle ?b False))
                - min chunk_size (length (contents (Handle ?b False)))) (contents (Handle ?b False))))
              = [] @ replicate 512 (ascii ?l) @ [[]]"
    using split_nl_terminated [OF nl [of 512]]
    by (simp add: len chunk_size_def chunk decode_ignore_ascii [OF plc])
  have "tail_loop (Handle ?b False) 10 (length (contents (Handle ?b False))) 0 []
          = Inr (drop (length (replicate 512 (ascii ?l)) - 10) (replicate 512 (ascii ?l)))"
    by (rule tail_loop_one_chunk [OF _ _ _ sp]) (use ne in \<open>simp_all add: list_all_iff ascii_def\<close>)
  then have tl: "tail_loop (Handle ?b False) (nat 10) (length ?b) 0 [] = Inr (replicate 10 (ascii ?l))"
    by simp
  have cnt: "count_lines_in_file ?fs ''big.txt'' = Inr 1280"
    using count_lines_terminated [of "replicate 1280 ?l" ?fs "''big.txt''", OF nl [of 1280] f] by simp
  have first: "read_first_lines 10 (ascii ?b) = replicate 10 (ascii ?l @ [10])"
    using read_first_lines_terminated [OF nl [of 1280], of 10] by simp
  have big: "\<not> int (length ?b) < 100 * 2"
    by (simp add: len)
  have res: "memory_efficient_file_sample ?fs ''big.txt'' 10 100
      = Inr (concat (replicate 10 (ascii ?l @ [10])) @ truncation_marker
             @ join_nl (replicate 10 (ascii ?l)))"
    using line_sample_regular [of ?fs "''big.txt''" ?b 100 10, OF f ne big _ pl tl cnt]
    by (simp add: first)
  have a: "ascii ''abcdefg\<newline>'' = ascii ?l @ [10]"
    by (simp add: ascii_def)
  have sz: "st_size (?fs ''big.txt'') = Inr 10240"
    by (simp add: f len)
  have ln: "length (concat (replicate 10 (ascii ''abcdefg\<newline>'')) @ truncation_marker
             @ join_nl (replicate 10 (ascii ''abcdefg''))) = 188"
    by (simp add: length_concat sum_list_replicate length_join_nl marker_length length_ascii)
  from sz res ln show ?thesis
    by (simp only: a simp_thms)
qed

section \<open>Empty files and terminated lines (C6)\<close>

text \<open>
  C6.  A file of size 0 has 0 lines and the empty sample.  A file of \<open>N\<close> newline-terminated
  lines has \<open>N\<close> lines; without its final newline it still has \<open>N\<close> lines, provided that
  the last line is not empty (stripping the newline of an empty last line leaves no
  unterminated line behind, and the count drops to \<open>N - 1\<close>).
\<close>

theorem count_lines_empty_terminated_stripped:
  "(st_size (fs0 p0) = Inr 0 \<longrightarrow>
      count_lines_in_file fs0 p0 = Inr 0 \<and> memory_efficient_file_sample fs0 p0 k m = Inr [])
   \<and> (list_all (\<lambda>l. NL \<notin> set l) ls \<and> fs1 p1 = Regular (terminated_lines ls) \<longrightarrow>
        count_lines_in_file fs1 p1 = Inr (length ls))
   \<and> (list_all (\<lambda>l. NL \<notin> set l) ls \<and> ls \<noteq> [] \<and> last ls \<noteq> []
        \<and> fs2 p2 = Regular (butlast (terminated_lines ls)) \<longrightarrow>
        count_lines_in_file fs2 p2 = Inr (length ls))"
  using count_lines_size0 [of fs0 p0] sample_size0 [of fs0 p0 k m]
    count_lines_terminated [of ls fs1 p1] count_lines_stripped [of ls fs2 p2]
  by blast

theorem count_lines_empty_terminated_stripped_witness:
  "st_size (single_file ''e'' [] ''e'') = Inr 0
   \<and> count_lines_in_file (single_file ''e'' []) ''e'' = Inr 0
   \<and> memory_efficient_file_sample (single_file ''e'' []) ''e'' 10 5000 = Inr []
   \<and> list_all (\<lambda>l. NL \<notin> set l) [''ab'', ''c'']
   \<and> single_file ''f'' (terminated_lines [''ab'', ''c'']) ''f'' = Regular (terminated_lines [''ab'', ''c''])
   \<and> count_lines_in_file (single_file ''f'' (terminated_lines [''ab'', ''c''])) ''f'' = Inr 2
   \<and> last [''ab'', ''c''] \<noteq> []
   \<and> count_lines_in_file (single_file ''g'' (butlast (terminated_lines [''ab'', ''c'']))) ''g'' = Inr 2"
  using count_lines_empty_terminated_stripped
    [of "single_file ''e'' []" "''e''" 10 5000 "[''ab'', ''c'']"
        "single_file ''f'' (terminated_lines [''ab'', ''c''])" "''f''"
        "single_file ''g'' (butlast (terminated_lines [''ab'', ''c'']))" "''g''"]
  by (simp add: single_file_def NL_def)

text \<open>
  As stated, the second half of C6 fails: the two lines \<^verbatim>\<open>a\<close> and the empty line make the file
  \<^verbatim>\<open>a\n\n\<close> with 2 lines; without its final newline it is \<^verbatim>\<open>a\n\<close>, which has 1 line.
\<close>

theorem count_lines_stripped_empty_last_counterexample:
  "list_all (\<lambda>l. NL \<notin> set l) [''a'', '''']
   \<and> count_lines_in_file (single_file ''f'' (terminated_lines [''a'', ''''])) ''f'' = Inr 2
   \<and> count_lines_in_file (single_file ''f'' (butlast (terminated_lines [''a'', '''']))) ''f'' = Inr 1"
  by (simp add: count_lines_single terminated_lines_def NL_def)

section \<open>Truncation without a marker (C7)\<close>

text \<open>
  C7.  What the small-file branch reads is never longer than \<open>max_size\<close> (see
  \<open>read_chars_le\<close> and \<open>sample_small\<close>), but a truncation there carries no marker: of a file of
  150 letters \<^verbatim>\<open>a\<close> and \<open>max_size = 100\<close> the sampler returns the first 100 letters and
  nothing else, where the claim wants the truncation marker exactly once.
\<close>

theorem truncated_without_marker:
  "memory_efficient_file_sample (single_file ''f.dat'' (replicate 150 (CHR ''a''))) ''f.dat'' 10 100
     = Inr (replicate 100 97)"
  by (simp add: sample_small_regular [of _ _ "replicate 150 (CHR ''a'')"] single_file_def
        text_plain_ascii plain_ascii_replicate ascii_def)

section \<open>One failing item among four (C8)\<close>

text \<open>
  C8.  Over the items 1, 2, 3, 4 with an operation that raises only for 3, in whatever order
  the four futures complete, the run returns normally; its results are those of 1, 2 and 4
  (as a multiset, hence as a set) and exactly one error is logged, that of 3.  The run is
  one that can start: a worker count that is the default or positive, and \<^verbatim>\<open>tqdm\<close>
  importable when a progress bar is asked for.
\<close>

theorem run_isolates_failure:
  assumes order: "mset (completion_order env) = mset [0, 1, 2, 3]"
    and ops: "op 1 = Inr r1" "op 2 = Inr r2" "op 3 = Inl e" "op 4 = Inr r4"
    and prog: "show_progress \<longrightarrow> tqdm_installed env"
    and workers: "max_workers = None \<or> (\<exists>w. max_workers = Some w \<and> 0 < w)"
  shows "\<exists>out. parallel_process env [1, 2, 3, 4 :: int] op max_workers show_progress = Inr out
           \<and> mset (results out) = {#r1, r2, r4#}
           \<and> set (results out) = {r1, r2, r4}
           \<and> logged out = [e]"
proof -
  let ?futures = "map op [1, 2, 3, 4 :: int]"
  let ?done = "map (\<lambda>i. ?futures ! i) (completion_order env)"
  let ?out = "collect show_progress ?done \<lparr>results = [], logged = [], progress = 0\<rparr>"
  have w: "0 < (case max_workers of None \<Rightarrow> default_workers (cpu_count env) | Some w \<Rightarrow> w)"
    using workers default_workers_pos by (auto split: option.splits)
  have run: "parallel_process env [1, 2, 3, 4 :: int] op max_workers show_progress = Inr ?out"
    using w prog by (simp add: parallel_process_def Let_def)
  have upt: "[0..<length ?futures] = [0, 1, 2, 3]"
    by (simp add: upt_rec)
  have perm: "mset ?done = mset ?futures"
    by (rule completed_futures) (simp only: upt order)
  have "mset (List.map_filter (\<lambda>f. case f of Inl e \<Rightarrow> None | Inr r \<Rightarrow> Some r) ?done)
          = mset (List.map_filter (\<lambda>f. case f of Inl e \<Rightarrow> None | Inr r \<Rightarrow> Some r) ?futures)"
    by (rule mset_map_filter_cong [OF perm])
  also have "\<dots> = {#r1, r2, r4#}"
    using ops by (simp add: List.map_filter_simps)
  finally have res: "mset (results ?out) = {#r1, r2, r4#}"
    by (simp add: collect_results)
  then have "set_mset (mset (results ?out)) = set_mset {#r1, r2, r4#}"
    by (rule arg_cong)
  then have st: "set (results ?out) = {r1, r2, r4}"
    by simp
  have "mset (List.map_filter (\<lambda>f. case f of Inl e \<Rightarrow> Some e | Inr r \<Rightarrow> None) ?done)
          = mset (List.map_filter (\<lambda>f. case f of Inl e \<Rightarrow> Some e | Inr r \<Rightarrow> None) ?futures)"
    by (rule mset_map_filter_cong [OF perm])
  also have "\<dots> = {#e#}"
    using ops by (simp add: List.map_filter_simps)
  finally have "mset (logged ?out) = {#e#}"
    by (simp add: collect_logged)
  then have lg: "logged ?out = [e]"
    by simp
  from run res st lg show ?thesis
    by blast
qed

theorem run_isolates_failure_witness:
  "mset (completion_order \<lparr>cpu_count = Some 8, tqdm_installed = False, completion_order = [3, 1, 0, 2]\<rparr>)
      = mset [0, 1, 2, 3]
   \<and> failing_function 1 = Inr 1 \<and> failing_function 2 = Inr 4
   \<and> failing_function 3 = Inl ValueError \<and> failing_function 4 = Inr 16
   \<and> (\<exists>out. parallel_process
                \<lparr>cpu_count = Some 8, tqdm_installed = False, completion_order = [3, 1, 0, 2]\<rparr>
                [1, 2, 3, 4] failing_function None False = Inr out
          \<and> mset (results out) = {#1, 4, 16#}
          \<and> set (results out) = {1, 4, 16}
          \<and> logged out = [ValueError])"
proof -
  have o: "mset (completion_order \<lparr>cpu_count = Some 8, tqdm_installed = False, completion_order = [3, 1, 0, 2]\<rparr>)
      = mset [0, 1, 2, 3]"
    by (simp add: add_mset_commute)
  have f: "failing_function 1 = Inr 1" "failing_function 2 = Inr 4"
      "failing_function 3 = Inl ValueError" "failing_function 4 = Inr 16"
    by (simp_all add: failing_function_def)
  from run_isolates_failure [OF o f, of False None] o f show ?thesis
    by simp
qed

section \<open>The inline truncation form is unreachable (C9)\<close>

text \<open>
  C9.  In the small-file branch (size positive and below \<open>2 * max_size\<close>) the text-mode read
  asks for at most \<open>max_size\<close> characters, so the guard \<^verbatim>\<open>len(content) <= max_size\<close> holds
  for whatever is read, and the sampler returns the read content verbatim (or the placeholder
  of the read's exception): the head-half, marker, tail-half form is never produced.
\<close>

theorem small_file_returns_read_content:
  assumes "st_size (fs p) = Inr n" and "0 < n" and "int n < 2 * m"
  shows "memory_efficient_file_sample fs p k m =
           Inr (case read_text_ignore fs p m of
                  Inl e \<Rightarrow> error_placeholder e p
                | Inr content \<Rightarrow> content)
         \<and> (\<forall>content. read_text_ignore fs p m = Inr content \<longrightarrow> int (length content) \<le> m)"
proof -
  from assms have m: "0 \<le> m" by simp
  have "\<forall>content. read_text_ignore fs p m = Inr content \<longrightarrow> int (length content) \<le> m"
    using read_chars_le [OF m]
    by (auto simp: read_text_ignore_def split: sum.splits)
  with sample_small [of fs p n m k] assms show ?thesis by simp
qed

theorem small_file_returns_read_content_witness:
  "st_size (single_file ''f.txt'' ''hello'' ''f.txt'') = Inr 5
   \<and> (0::nat) < 5 \<and> int 5 < 2 * 5000
   \<and> read_text_ignore (single_file ''f.txt'' ''hello'') ''f.txt'' 5000 = Inr (ascii ''hello'')
   \<and> memory_efficient_file_sample (single_file ''f.txt'' ''hello'') ''f.txt'' 10 5000
        = Inr (ascii ''hello'')
   \<and> int (length (ascii ''hello'')) \<le> 5000"
proof -
  have r: "read_text_ignore (single_file ''f.txt'' ''hello'') ''f.txt'' 5000 = Inr (ascii ''hello'')"
    by (simp add: read_text_ignore_def single_file_def text_ignore_def read_chars_def
          text_plain_ascii plain_ascii_def ascii_def)
  have s: "st_size (single_file ''f.txt'' ''hello'' ''f.txt'') = Inr 5"
    by (simp add: single_file_def)
  from small_file_returns_read_content
         [of "single_file ''f.txt'' ''hello''" "''f.txt''" 5 5000 10] r s
  show ?thesis
    by (simp add: ascii_def)
qed

section \<open>The classifier never raises and may answer from the name alone (C10)\<close>

text \<open>
  C10.  The classifier never raises, for any path.  When the name has a text MIME type, or has
  no MIME type and a known text extension, the answer is true for every file system: the
  file is neither opened nor checked, so it need not exist.
\<close>

theorem is_text_total_and_by_name:
  "(\<exists>b. is_text_file g fs p = Inr b)
   \<and> ((\<exists>m. g (path_name p) = Some m \<and> m \<noteq> [] \<and> is_text_mime m)
        \<or> ((g (path_name p) = None \<or> g (path_name p) = Some [])
            \<and> lower (path_suffix p) \<in> set text_extensions)
       \<longrightarrow> (\<forall>fs'. is_text_file g fs' p = Inr True))"
  using is_text_never_raises [of g fs p] is_text_by_name [of g p] by blast

theorem is_text_total_and_by_name_witness:
  "single_file ''other.bin'' [] ''gone/notes.txt'' = Absent
   \<and> mime_by_suffix [(''.txt'', ''text/plain'')] (path_name ''gone/notes.txt'') = Some ''text/plain''
   \<and> is_text_mime ''text/plain''
   \<and> is_text_file (mime_by_suffix [(''.txt'', ''text/plain'')]) (single_file ''other.bin'' []) ''gone/notes.txt''
        = Inr True"
  using is_text_total_and_by_name
    [of "mime_by_suffix [(''.txt'', ''text/plain'')]" "single_file ''other.bin'' []" "''gone/notes.txt''"]
  by (simp add: single_file_def mime_by_suffix_def path_suffix_def path_name_def lower_def
        lower_char_def is_text_mime_def)

text \<open>
  As stated, C10 lets the known text extension alone decide.  It does not when the name has a
  MIME type that is not a text type: the type is looked at first and wins.  With a table that
  maps \<^verbatim>\<open>.ts\<close> to \<^verbatim>\<open>video/mp2t\<close>, the missing \<^verbatim>\<open>src/app.ts\<close> is not text.
\<close>

theorem known_extension_foreign_mime_counterexample:
  "single_file ''other.bin'' [] ''src/app.ts'' = Absent
   \<and> lower (path_suffix ''src/app.ts'') \<in> set text_extensions
   \<and> is_text_file (mime_by_suffix [(''.ts'', ''video/mp2t'')]) (single_file ''other.bin'' []) ''src/app.ts''
        = Inr False"
  by (simp add: single_file_def mime_by_suffix_def path_suffix_def path_name_def lower_def
        lower_char_def is_text_mime_def is_text_file_def text_extensions_def text_mime_types_def)

end
